theory Spec2Isabelle
  imports
    Main
    "HOL-Library.Char_ord"
    "HOL-Library.List_Lexorder"
    "HOL-Library.Product_Lexorder"
begin

section \<open>The sprite lookup reporter (show\_samples.py)\<close>

text \<open>
  The script reads one JSON file, prints up to ten sample items for each of four
  categories and then the number of items of every category. It is a straight line of
  statements; each statement that can raise is a function with an error branch here, and
  the text written by \<^verbatim>\<open>print\<close> is a list of lines that the program returns
  together with the exception that ended it, if any.

  Scope of the model. The value decoded from the file is an object whose values are
  objects; the fields \<^verbatim>\<open>name\<close> and \<^verbatim>\<open>category\<close> of such an object hold a string
  when they are present, and either may be absent. Everything else an item object carries
  is the component \<open>other\<close>. Strings are byte strings (UTF-8); their order is the
  lexicographic order of the bytes, which on UTF-8 text is the order of the code points
  that Python compares.
\<close>

subsection \<open>Data\<close>

record 'a ItemRecord =
  name :: "string option"
  category :: "string option"
  other :: 'a

text \<open>
  A Python dict: the items in insertion order. The keys of a dict are distinct, which
  \<open>is_dict\<close> says.
\<close>

type_synonym ('k, 'v) dict = "('k \<times> 'v) list"

type_synonym 'a catalog = "(string, 'a ItemRecord) dict"

definition is_dict :: "('k, 'v) dict \<Rightarrow> bool" where
  "is_dict d = distinct (map fst d)"

text \<open>\<^verbatim>\<open>d.get(k, default)\<close>\<close>

fun dict_get :: "('k, 'v) dict \<Rightarrow> 'k \<Rightarrow> 'v \<Rightarrow> 'v" where
  "dict_get [] k dflt = dflt"
| "dict_get ((k', v) # ps) k dflt = (if k' = k then v else dict_get ps k dflt)"

text \<open>
  \<^verbatim>\<open>d[k] = v\<close>: a key that is present keeps its place, a new key goes to the end.
\<close>

fun dict_set :: "('k, 'v) dict \<Rightarrow> 'k \<Rightarrow> 'v \<Rightarrow> ('k, 'v) dict" where
  "dict_set [] k v = [(k, v)]"
| "dict_set ((k', v') # ps) k v = (if k' = k then (k, v) # ps else (k', v') # dict_set ps k v)"

text \<open>
  The exceptions the script can end with: \<^verbatim>\<open>open\<close> on a path that does not exist,
  \<^verbatim>\<open>json.load\<close> on text that is not JSON, and a subscript with a key that the
  object lacks (the key is the exception's argument).
\<close>

datatype error = FileNotFoundError | JSONDecodeError | KeyError string

subsection \<open>Loading\<close>

text \<open>
  \<^verbatim>\<open>json.load\<close> is the standard library's decoder; how it reads text is not part
  of the script and is not modelled. A file is represented by what the decoder does with
  its text: \<open>NotJSON\<close> when it raises \<^verbatim>\<open>JSONDecodeError\<close>, \<open>Doc d\<close> when it
  returns the dict \<open>d\<close>. Files for which it returns a value of another kind or raises
  another exception are not represented. A file system maps the paths that exist to
  their files.
\<close>

datatype 'a content = NotJSON | Doc "'a catalog"

type_synonym 'a filesystem = "string \<Rightarrow> 'a content option"

text \<open>
  \<^verbatim>\<open>
  with open(path, 'r') as f:
      data = json.load(f)
  \<close>
\<close>

definition load :: "'a filesystem \<Rightarrow> string \<Rightarrow> error + 'a catalog" where
  "load fs path =
     (case fs path of
        None \<Rightarrow> Inl FileNotFoundError
      | Some NotJSON \<Rightarrow> Inl JSONDecodeError
      | Some (Doc data) \<Rightarrow> Inr data)"

subsection \<open>Sampling\<close>

text \<open>
  \<^verbatim>\<open>[(k, v) for k, v in data.items() if v['category'] == c]\<close>: the condition is
  evaluated for every item in turn, and \<^verbatim>\<open>v['category']\<close> raises at the first item
  that has no such field.
\<close>

fun matching :: "'a catalog \<Rightarrow> string \<Rightarrow> error + 'a catalog" where
  "matching [] c = Inr []"
| "matching ((k, v) # rest) c =
     (case category v of
        None \<Rightarrow> Inl (KeyError ''category'')
      | Some c' \<Rightarrow>
          (case matching rest c of
             Inl e \<Rightarrow> Inl e
           | Inr found \<Rightarrow> Inr (if c' = c then (k, v) # found else found)))"

text \<open>
  \<^verbatim>\<open>[... comprehension ...][:limit]\<close>; the script writes this four times, with the
  categories weapons, armor, food and resources and the limit 10.
\<close>

definition sampleByCategory :: "'a catalog \<Rightarrow> string \<Rightarrow> nat \<Rightarrow> error + 'a catalog" where
  "sampleByCategory data c limit =
     (case matching data c of Inl e \<Rightarrow> Inl e | Inr found \<Rightarrow> Inr (take limit found))"

subsection \<open>Counting\<close>

text \<open>
  \<^verbatim>\<open>
  categories = {}
  for v in data.values():
      cat = v['category']
      categories[cat] = categories.get(cat, 0) + 1
  \<close>
\<close>

fun count_loop :: "'a ItemRecord list \<Rightarrow> (string, nat) dict \<Rightarrow> error + (string, nat) dict" where
  "count_loop [] categories = Inr categories"
| "count_loop (v # vs) categories =
     (case category v of
        None \<Rightarrow> Inl (KeyError ''category'')
      | Some cat \<Rightarrow> count_loop vs (dict_set categories cat (dict_get categories cat 0 + 1)))"

definition countByCategory :: "'a catalog \<Rightarrow> error + (string, nat) dict" where
  "countByCategory data = count_loop (map snd data) []"

subsection \<open>The report\<close>

text \<open>
  One element per call of \<^verbatim>\<open>print\<close>: a fixed text, an item line
  \<^verbatim>\<open>f"  Icon{k}: {v['name']}"\<close>, or a count line
  \<^verbatim>\<open>f"  {category}: {count} items"\<close>.
\<close>

datatype line = Text string | ItemLine string string | CountLine string nat

definition hdr_weapons :: string where
  "hdr_weapons =
     [CHR 0xF0, CHR 0x9F, CHR 0x97, CHR 0xA1, CHR 0xEF, CHR 0xB8, CHR 0x8F] @ '' SAMPLE WEAPONS:''"

definition hdr_armor :: string where
  "hdr_armor =
     [CHR 0x0A, CHR 0xF0, CHR 0x9F, CHR 0x9B, CHR 0xA1, CHR 0xEF, CHR 0xB8, CHR 0x8F]
       @ '' SAMPLE ARMOR:''"

definition hdr_food :: string where
  "hdr_food = [CHR 0x0A, CHR 0xF0, CHR 0x9F, CHR 0x8D, CHR 0x96] @ '' SAMPLE FOOD:''"

definition hdr_resources :: string where
  "hdr_resources =
     [CHR 0x0A, CHR 0xE2, CHR 0x9B, CHR 0x8F, CHR 0xEF, CHR 0xB8, CHR 0x8F]
       @ '' SAMPLE RESOURCES:''"

definition hdr_summary :: string where
  "hdr_summary = [CHR 0x0A, CHR 0xF0, CHR 0x9F, CHR 0x93, CHR 0x8A] @ '' CATEGORY SUMMARY:''"

text \<open>What has been printed, and the exception that stopped the printing, if one did.\<close>

type_synonym printed = "line list \<times> error option"

text \<open>Statements in sequence: the second part runs only if the first did not raise.\<close>

definition and_then :: "printed \<Rightarrow> printed \<Rightarrow> printed" where
  "and_then p q = (case snd p of Some e \<Rightarrow> p | None \<Rightarrow> (fst p @ fst q, snd q))"

text \<open>
  \<^verbatim>\<open>
  for k, v in sample:
      print(f"  Icon{k}: {v['name']}")
  \<close>
\<close>

fun print_items :: "'a catalog \<Rightarrow> printed" where
  "print_items [] = ([], None)"
| "print_items ((k, v) # rest) =
     (case name v of
        None \<Rightarrow> ([], Some (KeyError ''name''))
      | Some n \<Rightarrow> and_then ([ItemLine k n], None) (print_items rest))"

text \<open>
  A sample section: the header is printed first, then the comprehension is evaluated, then
  the items are printed.
\<close>

definition sample_section :: "string \<Rightarrow> string \<Rightarrow> 'a catalog \<Rightarrow> printed" where
  "sample_section header c data =
     and_then ([Text header], None)
       (case sampleByCategory data c 10 of
          Inl e \<Rightarrow> ([], Some e)
        | Inr sample \<Rightarrow> print_items sample)"

text \<open>
  The summary: the counting loop runs before the header is printed;
  \<^verbatim>\<open>sorted(categories.items())\<close> orders the pairs (category, count).
\<close>

definition summary_section :: "'a catalog \<Rightarrow> printed" where
  "summary_section data =
     (case countByCategory data of
        Inl e \<Rightarrow> ([], Some e)
      | Inr categories \<Rightarrow>
          (Text hdr_summary # map (\<lambda>(c, n). CountLine c n) (sort categories), None))"

definition report :: "'a catalog \<Rightarrow> printed" where
  "report data =
     and_then (sample_section hdr_weapons ''weapons'' data)
    (and_then (sample_section hdr_armor ''armor'' data)
    (and_then (sample_section hdr_food ''food'' data)
    (and_then (sample_section hdr_resources ''resources'' data)
              (summary_section data))))"

subsection \<open>The program\<close>

record outcome =
  stdout :: "line list"
  raised :: "error option"

definition program :: "'a filesystem \<Rightarrow> string \<Rightarrow> outcome" where
  "program fs path =
     (case load fs path of
        Inl e \<Rightarrow> \<lparr>stdout = [], raised = Some e\<rparr>
      | Inr data \<Rightarrow> \<lparr>stdout = fst (report data), raised = snd (report data)\<rparr>)"

text \<open>The interpreter exits with 1 after an uncaught exception and with 0 otherwise.\<close>

definition exit_status :: "outcome \<Rightarrow> nat" where
  "exit_status r = (case raised r of None \<Rightarrow> 0 | Some e \<Rightarrow> 1)"

text \<open>The path the script opens.\<close>

definition sprite_lookup_path :: string where
  "sprite_lookup_path =
     ''C:'' @ [CHR 0x5C] @ ''Users'' @ [CHR 0x5C] @ ''Daniel'' @ [CHR 0x5C] @ ''Documents''
       @ [CHR 0x5C] @ ''Vibecode'' @ [CHR 0x5C] @ ''SR'' @ [CHR 0x5C] @ ''ScapeRune''
       @ [CHR 0x5C] @ ''public'' @ [CHR 0x5C] @ ''sprite_lookup.json''"

definition main :: "'a filesystem \<Rightarrow> outcome" where
  "main fs = program fs sprite_lookup_path"

subsection \<open>The text of the report\<close>

text \<open>
  What each call of \<^verbatim>\<open>print\<close> writes, and the whole of standard output:
  \<^verbatim>\<open>print\<close> ends every text with a newline. A count is a non-negative integer and is
  written in decimal.
\<close>

definition digit_char :: "nat \<Rightarrow> char" where
  "digit_char d = char_of (48 + d)"

function show_nat :: "nat \<Rightarrow> string" where
  "show_nat n =
     (if n < 10 then [digit_char n] else show_nat (n div 10) @ [digit_char (n mod 10)])"
  by pat_completeness auto
termination
  by (relation "measure (\<lambda>n. n)") auto

fun render_line :: "line \<Rightarrow> string" where
  "render_line (Text s) = s"
| "render_line (ItemLine k n) = ''  Icon'' @ k @ '': '' @ n"
| "render_line (CountLine c n) = ''  '' @ c @ '': '' @ show_nat n @ '' items''"

definition render :: "line list \<Rightarrow> string" where
  "render ls = concat (map (\<lambda>l. render_line l @ [CHR 0x0A]) ls)"

subsection \<open>Notions used by the properties\<close>

text \<open>Every item of the catalog has a \<^verbatim>\<open>category\<close> field.\<close>

definition all_have_category :: "'a catalog \<Rightarrow> bool" where
  "all_have_category data = list_all (\<lambda>(k, v). category v \<noteq> None) data"

text \<open>The items whose category is \<open>c\<close>, in the order of the catalog.\<close>

definition matches :: "'a catalog \<Rightarrow> string \<Rightarrow> 'a catalog" where
  "matches data c = filter (\<lambda>(k, v). category v = Some c) data"

text \<open>The categories of the count lines of an output, and the keys of its item lines.\<close>

fun counted_categories :: "line list \<Rightarrow> string list" where
  "counted_categories [] = []"
| "counted_categories (CountLine c n # ls) = c # counted_categories ls"
| "counted_categories (l # ls) = counted_categories ls"

fun item_keys :: "line list \<Rightarrow> string list" where
  "item_keys [] = []"
| "item_keys (ItemLine k n # ls) = k # item_keys ls"
| "item_keys (l # ls) = item_keys ls"

text \<open>
  Two catalogs with the same keys in the same order whose items agree on
  \<^verbatim>\<open>name\<close> and \<^verbatim>\<open>category\<close>; what else the items carry may differ, even in type.
\<close>

definition same_name_category :: "'a catalog \<Rightarrow> 'b catalog \<Rightarrow> bool" where
  "same_name_category data data' =
     list_all2 (\<lambda>(k, v) (k', v'). k = k' \<and> name v = name v' \<and> category v = category v')
       data data'"

text \<open>The catalog of the scenario with a sword, a shield and a loaf of bread.\<close>

definition sword :: "unit ItemRecord" where
  "sword = \<lparr>name = Some ''Sword'', category = Some ''weapons'', other = ()\<rparr>"

definition shield :: "unit ItemRecord" where
  "shield = \<lparr>name = Some ''Shield'', category = Some ''armor'', other = ()\<rparr>"

definition bread :: "unit ItemRecord" where
  "bread = \<lparr>name = Some ''Bread'', category = Some ''food'', other = ()\<rparr>"

definition three_items :: "unit catalog" where
  "three_items = [(''1'', sword), (''2'', shield), (''3'', bread)]"

text \<open>A catalog whose second item has a name and no category.\<close>

definition unlabelled :: "unit catalog" where
  "unlabelled = [(''1'', sword), (''2'', \<lparr>name = Some ''Rock'', category = None, other = ()\<rparr>)]"


text \<open>A file system with no file at all, and one whose only file is at the script's path.\<close>

definition no_files :: "unit filesystem" where
  "no_files = (\<lambda>p. None)"

definition only_file :: "'a content \<Rightarrow> 'a filesystem" where
  "only_file f = (\<lambda>p. if p = sprite_lookup_path then Some f else None)"

text \<open>The three items again, each with a price as its further content.\<close>

definition priced :: "nat catalog" where
  "priced =
     [(''1'', \<lparr>name = Some ''Sword'', category = Some ''weapons'', other = 120\<rparr>),
      (''2'', \<lparr>name = Some ''Shield'', category = Some ''armor'', other = 75\<rparr>),
      (''3'', \<lparr>name = Some ''Bread'', category = Some ''food'', other = 2\<rparr>)]"



section \<open>Properties\<close>

subsection \<open>Sampling either returns the matching items or raises\<close>

lemma all_have_category_Nil: "all_have_category []"
  by (simp add: all_have_category_def)

lemma all_have_category_Cons:
  "all_have_category ((k, v) # rest) \<longleftrightarrow> category v \<noteq> None \<and> all_have_category rest"
  by (simp add: all_have_category_def)

lemma all_have_category_iff:
  "all_have_category data \<longleftrightarrow> (\<forall>(k, v) \<in> set data. category v \<noteq> None)"
  by (simp add: all_have_category_def list_all_iff)

lemma matches_Nil: "matches [] c = []"
  by (simp add: matches_def)

lemma matches_Cons:
  "matches ((k, v) # rest) c =
     (if category v = Some c then (k, v) # matches rest c else matches rest c)"
  by (simp add: matches_def)

lemma matching_total:
  "matching data c =
     (if all_have_category data then Inr (matches data c) else Inl (KeyError ''category''))"
proof (induction data)
  case Nil
  show ?case by (simp add: all_have_category_Nil matches_Nil)
next
  case (Cons kv rest)
  obtain k v where kv: "kv = (k, v)" by (cases kv)
  show ?case
  proof (cases "category v")
    case None
    then show ?thesis by (simp add: kv all_have_category_Cons)
  next
    case (Some c')
    then show ?thesis using Cons.IH by (simp add: kv all_have_category_Cons matches_Cons)
  qed
qed

lemma sampleByCategory_total:
  "sampleByCategory data c limit =
     (if all_have_category data then Inr (take limit (matches data c))
      else Inl (KeyError ''category''))"
  by (simp add: sampleByCategory_def matching_total)

text \<open>
  Claim C1, as amended. For every catalog in which each record has a \<^verbatim>\<open>category\<close>
  field, every category and every limit, \<open>sampleByCategory\<close> returns the first
  \<open>limit\<close> entries, in the order of the catalog, whose category is the requested one; when
  no more than \<open>limit\<close> entries match it returns all of them in their order; when none
  matches it returns the empty sequence; and what it returns has at most \<open>limit\<close> entries.
\<close>

theorem sampleByCategory_first_matches:
  assumes "all_have_category data"
  shows "sampleByCategory data c limit = Inr (take limit (matches data c))
    \<and> (length (matches data c) \<le> limit \<longrightarrow> sampleByCategory data c limit = Inr (matches data c))
    \<and> (matches data c = [] \<longrightarrow> sampleByCategory data c limit = Inr [])
    \<and> (\<exists>sample. sampleByCategory data c limit = Inr sample \<and> length sample \<le> limit)"
  using assms by (simp add: sampleByCategory_total)

theorem sampleByCategory_first_matches_witness:
  "all_have_category three_items
    \<and> sampleByCategory three_items ''weapons'' 10 = Inr (take 10 (matches three_items ''weapons''))
    \<and> sampleByCategory three_items ''weapons'' 10 = Inr [(''1'', sword)]
    \<and> sampleByCategory three_items ''resources'' 10 = Inr []"
proof -
  have h: "all_have_category three_items"
    by (simp add: all_have_category_def three_items_def sword_def shield_def bread_def)
  have w: "matches three_items ''weapons'' = [(''1'', sword)]"
    by (simp add: matches_def three_items_def sword_def shield_def bread_def)
  have r: "matches three_items ''resources'' = []"
    by (simp add: matches_def three_items_def sword_def shield_def bread_def)
  from sampleByCategory_first_matches [OF h, of "''weapons''" 10]
    sampleByCategory_first_matches [OF h, of "''resources''" 10] h w r
  show ?thesis by simp
qed

text \<open>
  Claim C1 as it is written speaks of every catalog. In the catalog \<open>unlabelled\<close> no entry
  has the category armor, and the sample for armor is not the empty sequence but the
  \<^verbatim>\<open>KeyError\<close> of the entry that has no category; the sample for weapons is not the
  one matching entry either.
\<close>

theorem sampleByCategory_missing_category_counterexample:
  "matches unlabelled ''armor'' = []
    \<and> sampleByCategory unlabelled ''armor'' 10 = Inl (KeyError ''category'')
    \<and> sampleByCategory unlabelled ''armor'' 10 \<noteq> Inr []
    \<and> sampleByCategory unlabelled ''weapons'' 10 \<noteq> Inr (take 10 (matches unlabelled ''weapons''))"
  by (simp add: sampleByCategory_def matches_def unlabelled_def sword_def)

subsection \<open>The scenario with three items\<close>

text \<open>
  Claim C7. For the catalog with the sword (key 1, weapons), the shield (key 2, armor) and
  the bread (key 3, food), the sample for weapons with limit 10 is the single entry of key
  1, whose name is Sword, and the counts are armor 1, food 1, weapons 1. The dict of counts
  holds its keys in the order in which the loop met them; as a mapping it is the one of the
  claim. The last part is the whole report of this catalog.
\<close>

theorem three_items_scenario:
  "sampleByCategory three_items ''weapons'' 10 = Inr [(''1'', sword)]
    \<and> name sword = Some ''Sword''
    \<and> countByCategory three_items = Inr [(''weapons'', 1), (''armor'', 1), (''food'', 1)]
    \<and> map_of [(''weapons'', 1::nat), (''armor'', 1), (''food'', 1)]
        = [''armor'' \<mapsto> 1, ''food'' \<mapsto> 1, ''weapons'' \<mapsto> 1]
    \<and> report three_items =
        ([Text hdr_weapons, ItemLine ''1'' ''Sword'',
          Text hdr_armor, ItemLine ''2'' ''Shield'',
          Text hdr_food, ItemLine ''3'' ''Bread'',
          Text hdr_resources,
          Text hdr_summary,
          CountLine ''armor'' 1, CountLine ''food'' 1, CountLine ''weapons'' 1], None)"
proof -
  have sample: "sampleByCategory three_items c 10 = Inr (matches three_items c)" for c
    by (simp add: sampleByCategory_def matches_def three_items_def sword_def shield_def bread_def)
  have w: "matches three_items ''weapons'' = [(''1'', sword)]"
    and a: "matches three_items ''armor'' = [(''2'', shield)]"
    and f: "matches three_items ''food'' = [(''3'', bread)]"
    and r: "matches three_items ''resources'' = []"
    by (simp_all add: matches_def three_items_def sword_def shield_def bread_def)
  have counts: "countByCategory three_items = Inr [(''weapons'', 1), (''armor'', 1), (''food'', 1)]"
    by (simp add: countByCategory_def three_items_def sword_def shield_def bread_def)
  have sorted: "sort [(''weapons'', 1::nat), (''armor'', 1), (''food'', 1)]
      = [(''armor'', 1), (''food'', 1), (''weapons'', 1)]"
    by code_simp
  have m: "map_of [(''weapons'', 1::nat), (''armor'', 1), (''food'', 1)]
        = [''armor'' \<mapsto> 1, ''food'' \<mapsto> 1, ''weapons'' \<mapsto> 1]"
    by (auto simp: fun_eq_iff)
  have rep: "report three_items =
        ([Text hdr_weapons, ItemLine ''1'' ''Sword'',
          Text hdr_armor, ItemLine ''2'' ''Shield'',
          Text hdr_food, ItemLine ''3'' ''Bread'',
          Text hdr_resources,
          Text hdr_summary,
          CountLine ''armor'' 1, CountLine ''food'' 1, CountLine ''weapons'' 1], None)"
  proof -
    have summary: "summary_section three_items =
        ([Text hdr_summary, CountLine ''armor'' 1, CountLine ''food'' 1, CountLine ''weapons'' 1],
         None)"
      unfolding summary_section_def counts sum.case sorted by simp
    show ?thesis
      unfolding report_def sample_section_def sample w a f r summary
      by (simp add: and_then_def sword_def shield_def bread_def)
  qed
  from sample [of "''weapons''"] w counts m rep show ?thesis
    by (simp add: sword_def)
qed

subsection \<open>Counting\<close>

lemma keys_dict_set:
  "map fst (dict_set d k v) = (if k \<in> set (map fst d) then map fst d else map fst d @ [k])"
  by (induction d) (auto simp: rev_image_eqI)

lemma is_dict_dict_set: "is_dict d \<Longrightarrow> is_dict (dict_set d k v)"
  by (simp add: is_dict_def keys_dict_set)

lemma dict_get_dict_set:
  "dict_get (dict_set d k v) k' dflt = (if k' = k then v else dict_get d k' dflt)"
  by (induction d) auto

lemma sum_dict_set:
  "sum_list (map snd (dict_set d k (dict_get d k 0 + 1))) = sum_list (map snd d) + (1::nat)"
  by (induction d) auto

lemma dict_get_map_of:
  "dict_get d k dflt = (case map_of d k of None \<Rightarrow> dflt | Some v \<Rightarrow> v)"
  by (induction d) auto

lemma sum_over_keys:
  "is_dict d \<Longrightarrow> (\<Sum>k \<in> set (map fst d). dict_get d k 0) = sum_list (map snd d)"
proof (induction d)
  case Nil
  show ?case by simp
next
  case (Cons p ps)
  obtain a b where p: "p = (a, b)" by (cases p)
  from Cons.prems have fresh: "a \<notin> set (map fst ps)" and rest: "is_dict ps"
    by (simp_all add: is_dict_def p)
  have "(\<Sum>k \<in> set (map fst ps). dict_get (p # ps) k 0) = (\<Sum>k \<in> set (map fst ps). dict_get ps k 0)"
    using fresh by (intro sum.cong) (auto simp: p)
  then show ?case
    using fresh Cons.IH [OF rest] by (simp add: p)
qed

lemma count_loop_returns:
  "list_all (\<lambda>v. category v \<noteq> None) vs \<Longrightarrow> \<exists>cats. count_loop vs acc = Inr cats"
  by (induction vs arbitrary: acc) auto


lemma count_loop_is_dict:
  "count_loop vs acc = Inr cats \<Longrightarrow> is_dict acc \<Longrightarrow> is_dict cats"
  by (induction vs arbitrary: acc) (auto split: option.splits simp: is_dict_dict_set)

lemma count_loop_keys:
  "count_loop vs acc = Inr cats \<Longrightarrow>
   set (map fst cats) = set (map fst acc) \<union> {c. \<exists>v \<in> set vs. category v = Some c}"
proof (induction vs arbitrary: acc)
  case Nil
  then show ?case by simp
next
  case (Cons v vs)
  from Cons.prems obtain cat where cat: "category v = Some cat"
    and run: "count_loop vs (dict_set acc cat (dict_get acc cat 0 + 1)) = Inr cats"
    by (auto split: option.splits)
  have "set (map fst (dict_set acc cat (dict_get acc cat 0 + 1))) = insert cat (set (map fst acc))"
    by (auto simp: keys_dict_set)
  with Cons.IH [OF run] cat show ?case by auto
qed

lemma count_loop_get:
  "count_loop vs acc = Inr cats \<Longrightarrow>
   dict_get cats c 0 = dict_get acc c 0 + length (filter (\<lambda>v. category v = Some c) vs)"
proof (induction vs arbitrary: acc)
  case Nil
  then show ?case by simp
next
  case (Cons v vs)
  from Cons.prems obtain cat where cat: "category v = Some cat"
    and run: "count_loop vs (dict_set acc cat (dict_get acc cat 0 + 1)) = Inr cats"
    by (auto split: option.splits)
  show ?case
    using Cons.IH [OF run] cat by (simp add: dict_get_dict_set)
qed

lemma count_loop_sum:
  "count_loop vs acc = Inr cats \<Longrightarrow> sum_list (map snd cats) = sum_list (map snd acc) + length vs"
proof (induction vs arbitrary: acc)
  case Nil
  then show ?case by simp
next
  case (Cons v vs)
  from Cons.prems obtain cat where cat: "category v = Some cat"
    and run: "count_loop vs (dict_set acc cat (dict_get acc cat 0 + 1)) = Inr cats"
    by (auto split: option.splits)
  show ?case
    using Cons.IH [OF run] sum_dict_set [of acc cat] by simp
qed

lemma values_have_category:
  "list_all (\<lambda>v. category v \<noteq> None) (map snd data) = all_have_category data"
  by (induction data) (auto simp: all_have_category_def)

lemma length_matches:
  "length (filter (\<lambda>v. category v = Some c) (map snd data)) = length (matches data c)"
  by (induction data) (auto simp: matches_def)

lemma categories_of_values:
  "{c. \<exists>v \<in> set (map snd data). category v = Some c} = {c. \<exists>(k, v) \<in> set data. category v = Some c}"
  by force

lemma matches_empty_iff:
  "matches data c = [] \<longleftrightarrow> \<not> (\<exists>(k, v) \<in> set data. category v = Some c)"
  by (auto simp: matches_def filter_empty_conv)

lemma countByCategory_returns:
  "all_have_category data \<Longrightarrow> \<exists>cats. countByCategory data = Inr cats"
  unfolding countByCategory_def
  using count_loop_returns [of "map snd data" "[]"] values_have_category [of data] by blast


lemma countByCategory_is_dict: "countByCategory data = Inr cats \<Longrightarrow> is_dict cats"
  unfolding countByCategory_def by (erule count_loop_is_dict) (simp add: is_dict_def)

lemma countByCategory_keys:
  "countByCategory data = Inr cats \<Longrightarrow>
   set (map fst cats) = {c. \<exists>(k, v) \<in> set data. category v = Some c}"
  unfolding countByCategory_def
  by (drule count_loop_keys) (simp only: categories_of_values, simp)

lemma countByCategory_get:
  "countByCategory data = Inr cats \<Longrightarrow> dict_get cats c 0 = length (matches data c)"
  unfolding countByCategory_def
  using count_loop_get [of "map snd data" "[]" cats c] length_matches [of c data] by simp

lemma countByCategory_sum:
  "countByCategory data = Inr cats \<Longrightarrow> sum_list (map snd cats) = length data"
  unfolding countByCategory_def by (drule count_loop_sum) simp

lemma map_of_key:
  "k \<in> set (map fst d) \<Longrightarrow> map_of d k = Some (dict_get d k dflt)"
  by (cases "map_of d k") (auto simp: dict_get_map_of map_of_eq_None_iff)

lemma map_of_no_key:
  "k \<notin> set (map fst d) \<Longrightarrow> map_of d k = None"
  by (simp add: map_of_eq_None_iff)

text \<open>
  Claim C2. For every catalog in which each record has a \<^verbatim>\<open>category\<close> field,
  \<open>countByCategory\<close> returns a dict (its keys are distinct) whose keys are exactly the
  categories that occur in the catalog and which maps each of them to the number of records
  of that category; a category that does not occur is not a key. Nothing but the catalog
  enters the result.
\<close>

theorem countByCategory_tally:
  assumes "all_have_category data"
  shows "\<exists>cats. countByCategory data = Inr cats
    \<and> is_dict cats
    \<and> set (map fst cats) = {c. \<exists>(k, v) \<in> set data. category v = Some c}
    \<and> (\<forall>c. map_of cats c = (if matches data c = [] then None else Some (length (matches data c))))"
proof -
  from countByCategory_returns [OF assms] obtain cats where run: "countByCategory data = Inr cats" ..
  have keys: "set (map fst cats) = {c. \<exists>(k, v) \<in> set data. category v = Some c}"
    by (rule countByCategory_keys [OF run])
  have "map_of cats c = (if matches data c = [] then None else Some (length (matches data c)))" for c
  proof (cases "matches data c = []")
    case True
    then have "c \<notin> set (map fst cats)"
      unfolding keys matches_empty_iff by simp
    then show ?thesis using True by (simp add: map_of_no_key)
  next
    case False
    then have "c \<in> set (map fst cats)"
      unfolding keys matches_empty_iff by simp
    from map_of_key [OF this, of 0] False show ?thesis
      by (simp add: countByCategory_get [OF run])
  qed
  with run keys countByCategory_is_dict [OF run] show ?thesis by blast
qed

theorem countByCategory_tally_witness:
  "all_have_category three_items
    \<and> (\<exists>cats. countByCategory three_items = Inr cats
         \<and> is_dict cats
         \<and> set (map fst cats) = {''weapons'', ''armor'', ''food''}
         \<and> map_of cats ''armor'' = Some 1
         \<and> map_of cats ''resources'' = None)"
proof -
  have h: "all_have_category three_items"
    by (simp add: all_have_category_def three_items_def sword_def shield_def bread_def)
  have cs: "{c. \<exists>(k, v) \<in> set three_items. category v = Some c} = {''weapons'', ''armor'', ''food''}"
    by (auto simp: three_items_def sword_def shield_def bread_def)
  have a: "matches three_items ''armor'' = [(''2'', shield)]"
    and r: "matches three_items ''resources'' = []"
    by (simp_all add: matches_def three_items_def sword_def shield_def bread_def)
  from countByCategory_tally [OF h] obtain cats where
    "countByCategory three_items = Inr cats" "is_dict cats"
    "set (map fst cats) = {c. \<exists>(k, v) \<in> set three_items. category v = Some c}"
    "\<forall>c. map_of cats c = (if matches three_items c = [] then None else Some (length (matches three_items c)))"
    by blast
  then have "countByCategory three_items = Inr cats \<and> is_dict cats
         \<and> set (map fst cats) = {''weapons'', ''armor'', ''food''}
         \<and> map_of cats ''armor'' = Some 1
         \<and> map_of cats ''resources'' = None"
    by (simp add: cs a r)
  with h show ?thesis by blast
qed

text \<open>
  Claim C3. For every catalog in which each record has a \<^verbatim>\<open>category\<close> field, the
  counts that \<open>countByCategory\<close> returns add up to the number of records of the catalog:
  as the sum of the values of the dict, and as the sum over its keys of the count of each.
\<close>

theorem countByCategory_sums_to_size:
  assumes "all_have_category data"
  shows "\<exists>cats. countByCategory data = Inr cats
    \<and> sum_list (map snd cats) = length data
    \<and> (\<Sum>c \<in> set (map fst cats). dict_get cats c 0) = length data"
proof -
  from countByCategory_returns [OF assms] obtain cats where run: "countByCategory data = Inr cats" ..
  from sum_over_keys [OF countByCategory_is_dict [OF run]] countByCategory_sum [OF run] run
  show ?thesis by simp
qed

theorem countByCategory_sums_to_size_witness:
  "all_have_category three_items
    \<and> (\<exists>cats. countByCategory three_items = Inr cats \<and> sum_list (map snd cats) = 3
          \<and> (\<Sum>c \<in> set (map fst cats). dict_get cats c 0) = 3)"
proof -
  have h: "all_have_category three_items"
    by (simp add: all_have_category_def three_items_def sword_def shield_def bread_def)
  have "length three_items = 3" by (simp add: three_items_def)
  with countByCategory_sums_to_size [OF h] h show ?thesis by simp
qed

subsection \<open>A record without a category\<close>

lemma and_then_raised: "and_then (ls, Some e) q = (ls, Some e)"
  by (simp add: and_then_def)

lemma fst_and_then:
  "fst (and_then p q) = fst p @ (if snd p = None then fst q else [])"
  by (cases p) (auto simp: and_then_def split: option.splits)

lemma snd_and_then:
  "snd (and_then p q) = (if snd p = None then snd q else snd p)"
  by (cases p) (auto simp: and_then_def split: option.splits)

lemma sample_section_raises:
  "\<not> all_have_category data \<Longrightarrow>
   sample_section header c data = ([Text header], Some (KeyError ''category''))"
  by (simp add: sample_section_def sampleByCategory_total and_then_def)

lemma report_raises:
  "\<not> all_have_category data \<Longrightarrow> report data = ([Text hdr_weapons], Some (KeyError ''category''))"
  by (simp add: report_def sample_section_raises and_then_raised)

text \<open>
  Claim C9. For every catalog that contains a record without a \<^verbatim>\<open>category\<close> field,
  every sample raises \<^verbatim>\<open>KeyError('category')\<close>: the record is neither skipped nor
  given a default. The program therefore stops in its first sampling statement, after the
  header of the weapons section and before any item line, and prints no count line.
\<close>

theorem missing_category_stops_first_sample:
  assumes "\<exists>(k, v) \<in> set data. category v = None"
  shows "sampleByCategory data c limit = Inl (KeyError ''category'')
    \<and> sample_section hdr_weapons ''weapons'' data = ([Text hdr_weapons], Some (KeyError ''category''))
    \<and> report data = ([Text hdr_weapons], Some (KeyError ''category''))
    \<and> counted_categories (fst (report data)) = []
    \<and> (fs path = Some (Doc data) \<longrightarrow>
         program fs path = \<lparr>stdout = [Text hdr_weapons], raised = Some (KeyError ''category'')\<rparr>
         \<and> exit_status (program fs path) \<noteq> 0)"
proof -
  from assms have bad: "\<not> all_have_category data"
    by (fastforce simp: all_have_category_iff)
  show ?thesis
    by (simp add: bad sampleByCategory_total sample_section_raises report_raises program_def
        load_def exit_status_def)
qed

theorem missing_category_stops_first_sample_witness:
  "(\<exists>(k, v) \<in> set unlabelled. category v = None)
    \<and> sampleByCategory unlabelled ''weapons'' 10 = Inl (KeyError ''category'')
    \<and> report unlabelled = ([Text hdr_weapons], Some (KeyError ''category''))
    \<and> main (only_file (Doc unlabelled))
        = \<lparr>stdout = [Text hdr_weapons], raised = Some (KeyError ''category'')\<rparr>"
proof -
  have h: "\<exists>(k, v) \<in> set unlabelled. category v = None"
    by (simp add: unlabelled_def)
  have f: "only_file (Doc unlabelled) sprite_lookup_path = Some (Doc unlabelled)"
    by (simp add: only_file_def)
  from missing_category_stops_first_sample
    [OF h, of "''weapons''" 10 "only_file (Doc unlabelled)" sprite_lookup_path] h f
  show ?thesis by (simp add: main_def)
qed

subsection \<open>Loading\<close>

text \<open>
  Claim C6. For every path that does not exist, the program ends with
  \<^verbatim>\<open>FileNotFoundError\<close> (the spec's NotFoundError), has written nothing to standard
  output and exits with a non-zero status; and after any failure of the load nothing has
  been written.
\<close>

theorem load_failure_is_silent:
  "(fs path = None \<longrightarrow>
      load fs path = Inl FileNotFoundError
      \<and> program fs path = \<lparr>stdout = [], raised = Some FileNotFoundError\<rparr>
      \<and> render (stdout (program fs path)) = []
      \<and> exit_status (program fs path) \<noteq> 0)
   \<and> (\<forall>e. load fs path = Inl e \<longrightarrow>
      program fs path = \<lparr>stdout = [], raised = Some e\<rparr>
      \<and> exit_status (program fs path) \<noteq> 0)"
  by (simp add: program_def load_def exit_status_def render_def)

theorem load_failure_is_silent_witness:
  "no_files sprite_lookup_path = None
    \<and> main no_files = \<lparr>stdout = [], raised = Some FileNotFoundError\<rparr>
    \<and> exit_status (main no_files) \<noteq> 0
    \<and> load (only_file NotJSON :: unit filesystem) sprite_lookup_path = Inl JSONDecodeError
    \<and> program (only_file NotJSON :: unit filesystem) sprite_lookup_path
        = \<lparr>stdout = [], raised = Some JSONDecodeError\<rparr>"
proof -
  have h: "no_files sprite_lookup_path = None"
    by (simp add: no_files_def)
  have l: "load (only_file NotJSON :: unit filesystem) sprite_lookup_path = Inl JSONDecodeError"
    by (simp add: load_def only_file_def)
  from load_failure_is_silent [of no_files sprite_lookup_path]
    load_failure_is_silent [of "only_file NotJSON :: unit filesystem" sprite_lookup_path] h l
  show ?thesis by (simp add: main_def exit_status_def)
qed


subsection \<open>The counts section\<close>

lemma counted_categories_append:
  "counted_categories (xs @ ys) = counted_categories xs @ counted_categories ys"
  by (induction xs rule: counted_categories.induct) auto

lemma item_keys_append:
  "item_keys (xs @ ys) = item_keys xs @ item_keys ys"
  by (induction xs rule: item_keys.induct) auto

lemma counted_categories_print_items: "counted_categories (fst (print_items s)) = []"
  by (induction s rule: print_items.induct)
     (auto simp: fst_and_then counted_categories_append split: option.splits)

lemma counted_categories_sample_section:
  "counted_categories (fst (sample_section header c data)) = []"
  by (auto simp: sample_section_def fst_and_then counted_categories_print_items split: sum.splits)

lemma counted_categories_count_lines:
  "counted_categories (map (\<lambda>(c, n). CountLine c n) cats) = map fst cats"
  by (induction cats) auto

lemma counted_categories_summary_section:
  "counted_categories (fst (summary_section data)) =
     (case countByCategory data of Inl e \<Rightarrow> [] | Inr cats \<Rightarrow> map fst (sort cats))"
  by (simp add: summary_section_def counted_categories_count_lines split: sum.splits)

lemma snd_summary_section:
  "snd (summary_section data) = (case countByCategory data of Inl e \<Rightarrow> Some e | Inr cats \<Rightarrow> None)"
  by (simp add: summary_section_def split: sum.splits)

lemma counted_categories_report:
  "counted_categories (fst (report data)) = [] \<or>
   (\<exists>cats. countByCategory data = Inr cats \<and> counted_categories (fst (report data)) = map fst (sort cats))"
  by (simp add: report_def fst_and_then counted_categories_append counted_categories_sample_section
      counted_categories_summary_section split: sum.splits)

lemma report_finished:
  "snd (report data) = None \<Longrightarrow>
   \<exists>cats. countByCategory data = Inr cats \<and> counted_categories (fst (report data)) = map fst (sort cats)"
  by (simp add: report_def fst_and_then snd_and_then counted_categories_append
      counted_categories_sample_section counted_categories_summary_section snd_summary_section
      split: sum.splits if_splits)

lemma keys_of_sorted_dict:
  fixes cats :: "(string, nat) dict"
  assumes "is_dict cats"
  shows "sorted_wrt (<) (map fst (sort cats))"
proof -
  have "sorted (sort cats)" by simp
  then have "sorted_wrt (\<lambda>p q. fst p \<le> fst q) (sort cats)"
    by (rule sorted_wrt_mono_rel [rotated]) (auto simp: less_eq_prod_def)
  then have 1: "sorted (map fst (sort cats))"
    by (simp add: sorted_wrt_map)
  have 2: "distinct (map fst (sort cats))"
    using assms unfolding is_dict_def by (simp add: distinct_map)
  from 1 2 show ?thesis
    by (simp add: strict_sorted_iff)
qed

text \<open>
  Claim C4. For every catalog, the categories of the count lines of the report, in the
  order in which they are printed, are strictly ascending in the order of strings (the
  lexicographic order that \<^verbatim>\<open>sorted\<close> uses), so none occurs twice. When the program
  runs to its end they are exactly the categories that occur in the catalog. The same
  holds of the standard output of the program run on a file that holds the catalog.
\<close>

theorem counts_section_strictly_ascending:
  "sorted_wrt (<) (counted_categories (fst (report data)))
    \<and> distinct (counted_categories (fst (report data)))
    \<and> (snd (report data) = None \<longrightarrow>
         set (counted_categories (fst (report data))) = {c. \<exists>(k, v) \<in> set data. category v = Some c})
    \<and> (fs path = Some (Doc data) \<longrightarrow>
         sorted_wrt (<) (counted_categories (stdout (program fs path))))"
proof -
  have 1: "sorted_wrt (<) (counted_categories (fst (report data)))"
    using counted_categories_report [of data]
    by (auto simp: keys_of_sorted_dict countByCategory_is_dict)
  then have 2: "distinct (counted_categories (fst (report data)))"
    by (simp add: strict_sorted_iff)
  have 3: "set (counted_categories (fst (report data))) = {c. \<exists>(k, v) \<in> set data. category v = Some c}"
    if "snd (report data) = None"
  proof -
    from report_finished [OF that] obtain cats where run: "countByCategory data = Inr cats"
      and out: "counted_categories (fst (report data)) = map fst (sort cats)"
      by blast
    have "set (map fst (sort cats)) = set (map fst cats)"
      by simp
    with out countByCategory_keys [OF run] show ?thesis by simp
  qed
  have 4: "sorted_wrt (<) (counted_categories (stdout (program fs path)))"
    if "fs path = Some (Doc data)"
    using that 1 by (simp add: program_def load_def)
  from 1 2 3 4 show ?thesis by blast
qed

theorem counts_section_strictly_ascending_witness:
  "snd (report three_items) = None
    \<and> counted_categories (fst (report three_items)) = [''armor'', ''food'', ''weapons'']
    \<and> sorted_wrt (<) [''armor'', ''food'', ''weapons'']
    \<and> only_file (Doc three_items) sprite_lookup_path = Some (Doc three_items)
    \<and> sorted_wrt (<) (counted_categories (stdout (main (only_file (Doc three_items)))))"
proof -
  have sample: "sampleByCategory three_items c 10 = Inr (matches three_items c)" for c
    by (simp add: sampleByCategory_def matches_def three_items_def sword_def shield_def bread_def)
  have w: "matches three_items ''weapons'' = [(''1'', sword)]"
    and a: "matches three_items ''armor'' = [(''2'', shield)]"
    and f: "matches three_items ''food'' = [(''3'', bread)]"
    and r: "matches three_items ''resources'' = []"
    by (simp_all add: matches_def three_items_def sword_def shield_def bread_def)
  have counts: "countByCategory three_items = Inr [(''weapons'', 1), (''armor'', 1), (''food'', 1)]"
    by (simp add: countByCategory_def three_items_def sword_def shield_def bread_def)
  have sorted: "sort [(''weapons'', 1::nat), (''armor'', 1), (''food'', 1)]
      = [(''armor'', 1), (''food'', 1), (''weapons'', 1)]"
    by code_simp
  have summary: "summary_section three_items =
      ([Text hdr_summary, CountLine ''armor'' 1, CountLine ''food'' 1, CountLine ''weapons'' 1],
       None)"
    unfolding summary_section_def counts sum.case sorted by simp
  have rep: "snd (report three_items) = None
    \<and> counted_categories (fst (report three_items)) = [''armor'', ''food'', ''weapons'']"
    unfolding report_def sample_section_def sample w a f r summary
    by (simp add: and_then_def sword_def shield_def bread_def)
  have there: "only_file (Doc three_items) sprite_lookup_path = Some (Doc three_items)"
    by (simp add: only_file_def)
  from counts_section_strictly_ascending
    [of three_items "only_file (Doc three_items)" sprite_lookup_path] rep there
  show ?thesis by (simp add: main_def)
qed

subsection \<open>Fields other than name and category\<close>

lemma same_name_category_Nil: "same_name_category [] []"
  by (simp add: same_name_category_def)

lemma same_name_category_Cons:
  "same_name_category ((k, v) # d) ((k', v') # d') \<longleftrightarrow>
     k = k' \<and> name v = name v' \<and> category v = category v' \<and> same_name_category d d'"
  by (simp add: same_name_category_def)

lemma same_name_category_induct [consumes 1, case_names Nil Cons]:
  assumes "same_name_category d d'"
    and "P [] []"
    and "\<And>k v v' r r'. name v = name v' \<Longrightarrow> category v = category v' \<Longrightarrow>
           same_name_category r r' \<Longrightarrow> P r r' \<Longrightarrow> P ((k, v) # r) ((k, v') # r')"
  shows "P d d'"
  using assms(1) unfolding same_name_category_def
proof (induction rule: list_all2_induct)
  case Nil
  show ?case by (rule assms(2))
next
  case (Cons x xs y ys)
  obtain k v where x: "x = (k, v)" by (cases x)
  obtain k' v' where y: "y = (k', v')" by (cases y)
  from Cons show ?case
    using assms(3) [of v v' xs ys k] by (simp add: x y same_name_category_def)
qed

lemma same_all_have_category:
  "same_name_category d d' \<Longrightarrow> all_have_category d = all_have_category d'"
  by (induction rule: same_name_category_induct) (simp_all add: all_have_category_def)

lemma same_matches:
  "same_name_category d d' \<Longrightarrow> same_name_category (matches d c) (matches d' c)"
  by (induction rule: same_name_category_induct)
     (simp_all add: matches_Nil matches_Cons same_name_category_Nil same_name_category_Cons)

lemma same_take:
  "same_name_category d d' \<Longrightarrow> same_name_category (take n d) (take n d')"
  unfolding same_name_category_def by (rule list_all2_takeI)

lemma same_print_items:
  "same_name_category s s' \<Longrightarrow> print_items s = print_items s'"
  by (induction rule: same_name_category_induct) (simp_all split: option.splits)

lemma same_count_loop:
  "same_name_category d d' \<Longrightarrow> count_loop (map snd d) acc = count_loop (map snd d') acc"
  by (induction arbitrary: acc rule: same_name_category_induct) (simp_all split: option.splits)

lemma same_sample_section:
  assumes "same_name_category d d'"
  shows "sample_section header c d = sample_section header c d'"
proof -
  have "print_items (take 10 (matches d c)) = print_items (take 10 (matches d' c))"
    by (intro same_print_items same_take same_matches assms)
  then show ?thesis
    by (simp add: sample_section_def sampleByCategory_total same_all_have_category [OF assms])
qed

lemma same_summary_section:
  "same_name_category d d' \<Longrightarrow> summary_section d = summary_section d'"
  by (simp add: summary_section_def countByCategory_def same_count_loop)

text \<open>
  Claim C8. For every two catalogs that have the same keys in the same order and agree on
  the \<^verbatim>\<open>name\<close> and \<^verbatim>\<open>category\<close> of every record, whatever their other fields
  are, the report is the same: the same lines and the same end, hence the same outcome
  and the same text on standard output of the program run on files that hold them.
\<close>

theorem other_fields_do_not_show:
  assumes "same_name_category data data'"
  shows "report data = report data'
    \<and> (fs path = Some (Doc data) \<and> fs' path' = Some (Doc data') \<longrightarrow>
         program fs path = program fs' path'
         \<and> render (stdout (program fs path)) = render (stdout (program fs' path')))"
proof -
  have "report data = report data'"
    by (simp add: report_def same_sample_section [OF assms] same_summary_section [OF assms])
  then show ?thesis
    by (simp add: program_def load_def)
qed

theorem other_fields_do_not_show_witness:
  "same_name_category three_items priced
    \<and> map (other \<circ> snd) priced = [120, 75, 2]
    \<and> report three_items = report priced
    \<and> main (only_file (Doc three_items)) = main (only_file (Doc priced))"
proof -
  have h: "same_name_category three_items priced"
    by (simp add: same_name_category_def three_items_def priced_def sword_def shield_def bread_def)
  have o: "map (other \<circ> snd) priced = [120, 75, 2]"
    by (simp add: priced_def)
  have f: "only_file (Doc three_items) sprite_lookup_path = Some (Doc three_items)"
    "only_file (Doc priced) sprite_lookup_path = Some (Doc priced)"
    by (simp_all add: only_file_def)
  from other_fields_do_not_show
    [OF h, of "only_file (Doc three_items)" sprite_lookup_path "only_file (Doc priced)" sprite_lookup_path]
    h o f
  show ?thesis by (simp add: main_def)
qed

subsection \<open>Samples of different categories\<close>

lemma in_matches:
  "(k, v) \<in> set (matches data c) \<longleftrightarrow> (k, v) \<in> set data \<and> category v = Some c"
  by (auto simp: matches_def)

lemma dict_value_unique:
  "is_dict d \<Longrightarrow> (k, v) \<in> set d \<Longrightarrow> (k, v') \<in> set d \<Longrightarrow> v = v'"
  unfolding is_dict_def by (rule eq_key_imp_eq_value)

lemma matches_disjoint:
  assumes "is_dict data" and "c \<noteq> c'"
  shows "set (map fst (matches data c)) \<inter> set (map fst (matches data c')) = {}"
proof -
  have False if "k \<in> set (map fst (matches data c))" and "k \<in> set (map fst (matches data c'))" for k
  proof -
    from that obtain v v' where "(k, v) \<in> set (matches data c)" and "(k, v') \<in> set (matches data c')"
      by auto
    then have 1: "(k, v) \<in> set data" "category v = Some c"
      and 2: "(k, v') \<in> set data" "category v' = Some c'"
      by (simp_all add: in_matches)
    from dict_value_unique [OF assms(1) 1(1) 2(1)] 1(2) 2(2) assms(2) show False
      by simp
  qed
  then show ?thesis by blast
qed

lemma is_dict_matches: "is_dict data \<Longrightarrow> is_dict (matches data c)"
  by (simp add: is_dict_def matches_def distinct_map_filter)

lemma item_keys_print_items: "\<exists>n. item_keys (fst (print_items s)) = take n (map fst s)"
proof (induction s)
  case Nil
  show ?case by simp
next
  case (Cons kv rest)
  obtain k v where kv: "kv = (k, v)" by (cases kv)
  show ?case
  proof (cases "name v")
    case None
    then have "item_keys (fst (print_items (kv # rest))) = take 0 (map fst (kv # rest))"
      by (simp add: kv)
    then show ?thesis ..
  next
    case (Some n)
    from Cons.IH obtain m where "item_keys (fst (print_items rest)) = take m (map fst rest)" ..
    then have "item_keys (fst (print_items (kv # rest))) = take (Suc m) (map fst (kv # rest))"
      by (simp add: kv Some fst_and_then)
    then show ?thesis ..
  qed
qed

lemma item_keys_sample_section:
  "\<exists>n. item_keys (fst (sample_section header c data)) = take n (map fst (matches data c))"
proof (cases "all_have_category data")
  case True
  from item_keys_print_items [of "take 10 (matches data c)"] obtain n
    where "item_keys (fst (print_items (take 10 (matches data c))))
      = take n (map fst (take 10 (matches data c)))" ..
  then have "item_keys (fst (sample_section header c data)) = take (min n 10) (map fst (matches data c))"
    by (simp add: sample_section_def sampleByCategory_total True fst_and_then take_map)
  then show ?thesis ..
next
  case False
  then have "item_keys (fst (sample_section header c data)) = take 0 (map fst (matches data c))"
    by (simp add: sample_section_raises)
  then show ?thesis ..
qed

lemma item_keys_sample_section_subset:
  "set (item_keys (fst (sample_section header c data))) \<subseteq> set (map fst (matches data c))"
proof -
  from item_keys_sample_section [of header c data] obtain n
    where "item_keys (fst (sample_section header c data)) = take n (map fst (matches data c))" ..
  then show ?thesis
    using set_take_subset [of n "map fst (matches data c)"] by simp
qed

lemma item_keys_sample_section_distinct:
  assumes "is_dict data"
  shows "distinct (item_keys (fst (sample_section header c data)))"
proof -
  from item_keys_sample_section [of header c data] obtain n
    where "item_keys (fst (sample_section header c data)) = take n (map fst (matches data c))" ..
  then show ?thesis
    using is_dict_matches [OF assms, of c] by (simp add: is_dict_def)
qed

lemma item_keys_sections_disjoint:
  assumes "is_dict data" and "c \<noteq> c'"
  shows "set (item_keys (fst (sample_section header c data)))
    \<inter> set (item_keys (fst (sample_section header' c' data))) = {}"
  using matches_disjoint [OF assms] item_keys_sample_section_subset [of header c data]
    item_keys_sample_section_subset [of header' c' data]
  by blast

lemma item_keys_count_lines: "item_keys (map (\<lambda>(c, n). CountLine c n) cats) = []"
  by (induction cats) auto

lemma item_keys_summary_section: "item_keys (fst (summary_section data)) = []"
  by (simp add: summary_section_def item_keys_count_lines split: sum.splits)

lemma item_keys_report_distinct:
  assumes "is_dict data"
  shows "distinct (item_keys (fst (report data)))"
proof -
  have d: "distinct (item_keys (fst (sample_section header c data)))" for header c
    by (rule item_keys_sample_section_distinct [OF assms])
  have x: "set (item_keys (fst (sample_section header c data)))
    \<inter> set (item_keys (fst (sample_section header' c' data))) = {}" if "c \<noteq> c'" for header header' c c'
    by (rule item_keys_sections_disjoint [OF assms that])
  have wa: "''weapons'' \<noteq> ''armor''" and wf: "''weapons'' \<noteq> ''food''"
    and wr: "''weapons'' \<noteq> ''resources''" and af: "''armor'' \<noteq> ''food''"
    and ar: "''armor'' \<noteq> ''resources''" and fr: "''food'' \<noteq> ''resources''"
    by simp_all
  show ?thesis
    unfolding report_def
    by (simp add: fst_and_then item_keys_append item_keys_summary_section d
        x [OF wa] x [OF wf] x [OF wr] x [OF af] x [OF ar] x [OF fr] Int_Un_distrib)
qed

text \<open>
  Claim C10. For every catalog (a dict, so its keys are distinct) in which each record has
  a \<^verbatim>\<open>category\<close> field, and every two distinct categories, the two samples are returned
  and no key occurs in both, whatever the limits. Hence no key is printed twice among the
  item lines of the report: no record appears in more than one sample section.
\<close>

theorem samples_are_disjoint:
  assumes "is_dict data" and "all_have_category data" and "c \<noteq> c'"
  shows "(\<exists>s s'. sampleByCategory data c limit = Inr s \<and> sampleByCategory data c' limit' = Inr s'
           \<and> set (map fst s) \<inter> set (map fst s') = {})
    \<and> distinct (item_keys (fst (report data)))"
proof -
  have "set (map fst (take limit (matches data c))) \<subseteq> set (map fst (matches data c))"
    and "set (map fst (take limit' (matches data c'))) \<subseteq> set (map fst (matches data c'))"
    by (auto dest: in_set_takeD)
  with matches_disjoint [OF assms(1) assms(3)]
  have "set (map fst (take limit (matches data c))) \<inter> set (map fst (take limit' (matches data c'))) = {}"
    by blast
  with assms(2) item_keys_report_distinct [OF assms(1)] show ?thesis
    by (simp add: sampleByCategory_total)
qed

theorem samples_are_disjoint_witness:
  "is_dict three_items \<and> all_have_category three_items \<and> ''weapons'' \<noteq> ''armor''
    \<and> sampleByCategory three_items ''weapons'' 10 = Inr [(''1'', sword)]
    \<and> sampleByCategory three_items ''armor'' 10 = Inr [(''2'', shield)]
    \<and> (\<exists>s s'. sampleByCategory three_items ''weapons'' 10 = Inr s
          \<and> sampleByCategory three_items ''armor'' 10 = Inr s'
          \<and> set (map fst s) \<inter> set (map fst s') = {})
    \<and> distinct (item_keys (fst (report three_items)))"
proof -
  have d: "is_dict three_items"
    by (simp add: is_dict_def three_items_def)
  have h: "all_have_category three_items"
    by (simp add: all_have_category_def three_items_def sword_def shield_def bread_def)
  have n: "''weapons'' \<noteq> ''armor''"
    by simp
  have w: "sampleByCategory three_items ''weapons'' 10 = Inr [(''1'', sword)]"
    and a: "sampleByCategory three_items ''armor'' 10 = Inr [(''2'', shield)]"
    by (simp_all add: sampleByCategory_def three_items_def sword_def shield_def bread_def)
  from samples_are_disjoint [OF d h n, of 10 10] d h n w a show ?thesis
    by simp
qed

subsection \<open>Records that lack a field\<close>














end
